theory Spec2Isabelle
  imports Main "HOL-Library.Word"
begin

section \<open>Strings\<close>

text \<open>
  A JavaScript string is a sequence of UTF-16 code units. \<open>slugify\<close> is modelled twice.
  The model of this section is \<^typ>\<open>string\<close>, whose characters are the code units below
  256 (ASCII and Latin-1); it is the one \<open>buildSchedule\<close> computes with. On that range the
  built-in string methods used by \<^verbatim>\<open>scripts/update-map-events.js\<close> are the functions
  below: \<^verbatim>\<open>toLowerCase\<close> maps A-Z and the Latin-1 capitals U+00C0..U+00DE (without
  U+00D7) to the code unit 32 above, and \<^verbatim>\<open>trim\<close> removes TAB, LF, VT, FF, CR, SPACE and
  NBSP from both ends. The model of the next section is every sequence of 16-bit code
  units.
\<close>

definition is_upper :: "char \<Rightarrow> bool" where
  "is_upper c =
     (let n = (of_char c :: nat)
      in (65 \<le> n \<and> n \<le> 90) \<or> (192 \<le> n \<and> n \<le> 222 \<and> n \<noteq> 215))"

fun toLowerCase_char :: "char \<Rightarrow> char" where
  "toLowerCase_char (Char b0 b1 b2 b3 b4 b5 b6 b7) =
     (if is_upper (Char b0 b1 b2 b3 b4 b5 b6 b7) then Char b0 b1 b2 b3 b4 True b6 b7
      else Char b0 b1 b2 b3 b4 b5 b6 b7)"

definition toLowerCase :: "string \<Rightarrow> string" where
  "toLowerCase s = map toLowerCase_char s"

definition is_space :: "char \<Rightarrow> bool" where
  "is_space c = ((of_char c :: nat) \<in> {9, 10, 11, 12, 13, 32, 160})"

definition trim :: "string \<Rightarrow> string" where
  "trim s = rev (dropWhile is_space (rev (dropWhile is_space s)))"

text \<open>The character class \<^verbatim>\<open>[a-zA-Z]\<close> of the field-name pattern.\<close>

definition is_alpha :: "char \<Rightarrow> bool" where
  "is_alpha c =
     (let n = (of_char c :: nat)
      in (65 \<le> n \<and> n \<le> 90) \<or> (97 \<le> n \<and> n \<le> 122))"

subsection \<open>slugify\<close>

text \<open>
  \<^verbatim>\<open>
  function slugify(name) {
    return name
      .toLowerCase()
      .replace(/['"]/g, "")
      .replace(/[^a-z0-9]+/g, "-")
      .replace(/^-+|-+$/g, "");
  }
  \<close>
  \<open>is_slug_char\<close> is the class \<^verbatim>\<open>[a-z0-9]\<close>; \<open>remove_quotes\<close>, \<open>replace_runs\<close> and
  \<open>strip_hyphens\<close> are the three global replacements in their order.
\<close>

definition is_slug_char :: "char \<Rightarrow> bool" where
  "is_slug_char c =
     (let n = (of_char c :: nat)
      in (97 \<le> n \<and> n \<le> 122) \<or> (48 \<le> n \<and> n \<le> 57))"

definition is_quote :: "char \<Rightarrow> bool" where
  "is_quote c = (c = CHR 0x27 \<or> c = CHR 0x22)"

definition remove_quotes :: "string \<Rightarrow> string" where
  "remove_quotes s = filter (\<lambda>c. \<not> is_quote c) s"

function replace_runs :: "string \<Rightarrow> string" where
  "replace_runs [] = []"
| "replace_runs (c # cs) =
     (if is_slug_char c then c # replace_runs cs
      else CHR ''-'' # replace_runs (dropWhile (\<lambda>d. \<not> is_slug_char d) cs))"
  by pat_completeness auto
termination
  by (relation "measure length") (auto simp: length_dropWhile_le le_imp_less_Suc)

definition is_hyphen :: "char \<Rightarrow> bool" where
  "is_hyphen c = (c = CHR ''-'')"

definition strip_hyphens :: "string \<Rightarrow> string" where
  "strip_hyphens s = rev (dropWhile is_hyphen (rev (dropWhile is_hyphen s)))"

definition slugify :: "string \<Rightarrow> string" where
  "slugify name = strip_hyphens (replace_runs (remove_quotes (toLowerCase name)))"

text \<open>
  A string is \<open>tidy\<close> when it is what \<open>replace_runs\<close> leaves: characters of
  \<^verbatim>\<open>[a-z0-9]\<close> and single hyphens, no hyphen next to another.
\<close>

fun tidy :: "string \<Rightarrow> bool" where
  "tidy [] = True"
| "tidy (c # cs) =
     ((is_slug_char c \<or> (c = CHR ''-'' \<and> (case cs of [] \<Rightarrow> True | d # _ \<Rightarrow> is_slug_char d)))
      \<and> tidy cs)"

section \<open>slugify on UTF-16 strings\<close>

text \<open>
  The same function on every JavaScript string: a list of 16-bit code units, lone
  surrogates included. \<^verbatim>\<open>toLowerCase\<close> follows the Unicode case mappings. On a string of
  ASCII code units it maps A-Z to a-z and nothing else (no context rule of the Unicode
  tables applies to ASCII). For a string that holds a code unit from 128 up, the result
  comes from the tables of the Unicode Character Database, which are not part of the
  repository: they are the parameter \<open>unicode_lower\<close>, any function from strings to
  strings (it may change the length, as U+0130 does, or look at the context, as the final
  sigma does). The three replacements test code units, as the regular expressions without
  the \<^verbatim>\<open>u\<close> flag do.
\<close>

type_synonym utf16 = "16 word list"

definition is_ascii :: "16 word \<Rightarrow> bool" where
  "is_ascii c = (unat c < 128)"

definition ascii_lower :: "16 word \<Rightarrow> 16 word" where
  "ascii_lower c = (let n = unat c in if 65 \<le> n \<and> n \<le> 90 then c + 32 else c)"

definition toLowerCase_utf16 :: "(utf16 \<Rightarrow> utf16) \<Rightarrow> utf16 \<Rightarrow> utf16" where
  "toLowerCase_utf16 unicode_lower s =
     (if list_all is_ascii s then map ascii_lower s else unicode_lower s)"

definition is_slug_unit :: "16 word \<Rightarrow> bool" where
  "is_slug_unit c = (let n = unat c in (97 \<le> n \<and> n \<le> 122) \<or> (48 \<le> n \<and> n \<le> 57))"

definition is_quote_unit :: "16 word \<Rightarrow> bool" where
  "is_quote_unit c = (c = 0x27 \<or> c = 0x22)"

definition remove_quotes_utf16 :: "utf16 \<Rightarrow> utf16" where
  "remove_quotes_utf16 s = filter (\<lambda>c. \<not> is_quote_unit c) s"

function replace_runs_utf16 :: "utf16 \<Rightarrow> utf16" where
  "replace_runs_utf16 [] = []"
| "replace_runs_utf16 (c # cs) =
     (if is_slug_unit c then c # replace_runs_utf16 cs
      else 0x2D # replace_runs_utf16 (dropWhile (\<lambda>d. \<not> is_slug_unit d) cs))"
  by pat_completeness auto
termination
  by (relation "measure length") (auto simp: length_dropWhile_le le_imp_less_Suc)

definition is_hyphen_unit :: "16 word \<Rightarrow> bool" where
  "is_hyphen_unit c = (c = 0x2D)"

definition strip_hyphens_utf16 :: "utf16 \<Rightarrow> utf16" where
  "strip_hyphens_utf16 s = rev (dropWhile is_hyphen_unit (rev (dropWhile is_hyphen_unit s)))"

definition slugify_utf16 :: "(utf16 \<Rightarrow> utf16) \<Rightarrow> utf16 \<Rightarrow> utf16" where
  "slugify_utf16 unicode_lower name =
     strip_hyphens_utf16
       (replace_runs_utf16 (remove_quotes_utf16 (toLowerCase_utf16 unicode_lower name)))"

text \<open>The code units of a string of the first model.\<close>

definition utf16_of :: "string \<Rightarrow> utf16" where
  "utf16_of s = map of_char s"

fun tidy_utf16 :: "utf16 \<Rightarrow> bool" where
  "tidy_utf16 [] = True"
| "tidy_utf16 (c # cs) =
     ((is_slug_unit c \<or> (c = 0x2D \<and> (case cs of [] \<Rightarrow> True | d # _ \<Rightarrow> is_slug_unit d)))
      \<and> tidy_utf16 cs)"

section \<open>JSON values\<close>

text \<open>
  Both inputs of the script are parsed JSON: the remote payload (\<^verbatim>\<open>response.json()\<close>) and
  the local file (\<^verbatim>\<open>JSON.parse\<close>). A number is modelled as a decimal fraction:
  \<open>Dec m e\<close> is \<open>m / 10 ^ e\<close>. An object is the list of its own properties in the order
  \<^verbatim>\<open>Object.entries\<close> enumerates them; a parsed object has no key twice.
\<close>

datatype jsnum = Dec int nat

datatype json =
    JNull
  | JBool bool
  | JNum jsnum
  | JStr string
  | JArr "json list"
  | JObj "(string \<times> json) list"

datatype error =
    UnexpectedMapPrefix string
  | MissingEventType string string
  | TypeError

definition is_integer :: "jsnum \<Rightarrow> bool" where
  "is_integer n = (case n of Dec m e \<Rightarrow> nat \<bar>m\<bar> mod 10 ^ e = 0)"

text \<open>
  \<^verbatim>\<open>Number.prototype.toString\<close>, after Number::toString of the language specification.
  With \<open>s\<close> the significant digits of the value (no trailing zero), \<open>k\<close> their number
  and \<open>n\<close> the position of the decimal point (the value lies in [10^(n-1), 10^n)):
  a value with -5 \<le> n \<le> 21 is printed in positional notation, any other in exponent
  notation (\<^verbatim>\<open>1e-7\<close>, \<^verbatim>\<open>1.5e+21\<close>). The digits JavaScript prints are the shortest that
  read back as the same double; they are the digits of the decimal for every number of at
  most 15 significant digits in the normal range of doubles.
\<close>

function digits :: "nat \<Rightarrow> string" where
  "digits n =
     (if n < 10 then [''0123456789'' ! n]
      else digits (n div 10) @ [''0123456789'' ! (n mod 10)])"
  by pat_completeness auto
termination
  by (relation "measure id") auto

declare digits.simps [simp del]

definition num_to_string :: "jsnum \<Rightarrow> string" where
  "num_to_string x =
     (case x of Dec m e \<Rightarrow>
        let a = nat \<bar>m\<bar>
        in if a = 0 then ''0''
           else
             let all_digits = digits a;
                 s = rev (dropWhile (\<lambda>c. c = CHR ''0'') (rev all_digits));
                 k = length s;
                 n = int (length all_digits) - int e;
                 body =
                   (if - 5 \<le> n \<and> n \<le> 21 then
                      (if int k \<le> n then s @ replicate (nat (n - int k)) (CHR ''0'')
                       else if 0 < n then take (nat n) s @ ''.'' @ drop (nat n) s
                       else ''0.'' @ replicate (nat (- n)) (CHR ''0'') @ s)
                    else
                      (if k = 1 then s else take 1 s @ ''.'' @ drop 1 s)
                        @ ''e'' @ (if 0 \<le> n - 1 then ''+'' else ''-'') @ digits (nat \<bar>n - 1\<bar>))
             in (if m < 0 then ''-'' else []) @ body)"

definition typeof :: "json \<Rightarrow> string" where
  "typeof v =
     (case v of
        JNull \<Rightarrow> ''object''
      | JBool _ \<Rightarrow> ''boolean''
      | JNum _ \<Rightarrow> ''number''
      | JStr _ \<Rightarrow> ''string''
      | JArr _ \<Rightarrow> ''object''
      | JObj _ \<Rightarrow> ''object'')"

text \<open>\<^verbatim>\<open>!v\<close> is \<open>\<not> truthy v\<close>.\<close>

definition truthy :: "json \<Rightarrow> bool" where
  "truthy v =
     (case v of
        JNull \<Rightarrow> False
      | JBool b \<Rightarrow> b
      | JNum (Dec m e) \<Rightarrow> m \<noteq> 0
      | JStr s \<Rightarrow> s \<noteq> []
      | JArr _ \<Rightarrow> True
      | JObj _ \<Rightarrow> True)"

text \<open>
  Reading a property \<^verbatim>\<open>obj[key]\<close> of a plain object looks at the object's own properties
  and then at \<^verbatim>\<open>Object.prototype\<close>, whose members are functions (and, for
  \<^verbatim>\<open>__proto__\<close>, the prototype object): all of them truthy, none of them JSON.
  \<^verbatim>\<open>prefixToMapId\<close> is an object literal and \<^verbatim>\<open>eventTypes\<close> a parsed object, so both are
  read this way.
\<close>

definition object_prototype_names :: "string list" where
  "object_prototype_names =
     [''constructor'', ''__defineGetter__'', ''__defineSetter__'', ''hasOwnProperty'',
      ''__lookupGetter__'', ''__lookupSetter__'', ''isPrototypeOf'', ''propertyIsEnumerable'',
      ''toString'', ''valueOf'', ''__proto__'', ''toLocaleString'']"

datatype 'a property = Undefined | Own 'a | Inherited string

definition get_prop :: "(string \<times> 'a) list \<Rightarrow> string \<Rightarrow> 'a property" where
  "get_prop obj key =
     (case map_of obj key of
        Some v \<Rightarrow> Own v
      | None \<Rightarrow> if key \<in> set object_prototype_names then Inherited key else Undefined)"

definition truthy_prop :: "('a \<Rightarrow> bool) \<Rightarrow> 'a property \<Rightarrow> bool" where
  "truthy_prop t p = (case p of Undefined \<Rightarrow> False | Own v \<Rightarrow> t v | Inherited _ \<Rightarrow> True)"

text \<open>Assignment \<^verbatim>\<open>obj[key] = v\<close> to an own property: replaced in place, or added last.\<close>

fun set_prop :: "string \<Rightarrow> 'a \<Rightarrow> (string \<times> 'a) list \<Rightarrow> (string \<times> 'a) list" where
  "set_prop key v [] = [(key, v)]"
| "set_prop key v ((k, w) # rest) =
     (if k = key then (key, v) # rest else (k, w) # set_prop key v rest)"

text \<open>
  The own enumerable properties of a value, as \<^verbatim>\<open>Object.entries(v)\<close> and the spread
  \<^verbatim>\<open>{...v}\<close> read them: the fields of an object, the indexed elements of an array, the
  indexed characters of a string, nothing for the other primitives.
\<close>

definition own_entries :: "json \<Rightarrow> (string \<times> json) list" where
  "own_entries v =
     (case v of
        JObj fs \<Rightarrow> fs
      | JArr xs \<Rightarrow> zip (map digits [0..<length xs]) xs
      | JStr s \<Rightarrow> zip (map digits [0..<length s]) (map (\<lambda>c. JStr [c]) s)
      | _ \<Rightarrow> [])"

text \<open>
  \<^verbatim>\<open>String(v)\<close>. An array is joined with commas, \<^verbatim>\<open>null\<close> elements printing as the
  empty string. An object prints through the \<^verbatim>\<open>toString\<close> it inherits; an own property of
  that name (never callable in parsed JSON) shadows it, and the conversion throws a
  TypeError.
\<close>

fun ToString :: "json \<Rightarrow> error + string"
  and join :: "json list \<Rightarrow> error + string" where
  "ToString JNull = Inr ''null''"
| "ToString (JBool b) = Inr (if b then ''true'' else ''false'')"
| "ToString (JNum n) = Inr (num_to_string n)"
| "ToString (JStr s) = Inr s"
| "ToString (JArr xs) = join xs"
| "ToString (JObj fs) =
     (if ''toString'' \<in> set (map fst fs) then Inl TypeError else Inr ''[object Object]'')"
| "join [] = Inr []"
| "join (x # xs) =
     (case (case x of JNull \<Rightarrow> Inr [] | _ \<Rightarrow> ToString x) of
        Inl e \<Rightarrow> Inl e
      | Inr s \<Rightarrow>
          (case xs of
             [] \<Rightarrow> Inr s
           | _ # _ \<Rightarrow> (case join xs of Inl e \<Rightarrow> Inl e | Inr r \<Rightarrow> Inr (s @ '','' @ r))))"

section \<open>buildSchedule\<close>

text \<open>
  \<^verbatim>\<open>
  const prefixToMapId = {
    dam: "dam-battleground",
    buriedCity: "buried-city",
    spaceport: "the-spaceport",
    blueGate: "blue-gate",
    stellaMontis: "stella-montis"
  };
  \<close>
\<close>

definition prefixToMapId :: "(string \<times> string) list" where
  "prefixToMapId =
     [(''dam'', ''dam-battleground''),
      (''buriedCity'', ''buried-city''),
      (''spaceport'', ''the-spaceport''),
      (''blueGate'', ''blue-gate''),
      (''stellaMontis'', ''stella-montis'')]"

text \<open>
  The schedule is an object of objects of objects: location, then tier, then hour, then the
  slug. Only its keys and values matter here, so each level is a map.
\<close>

type_synonym bucket = "string \<rightharpoonup> string"
type_synonym tiers = "string \<rightharpoonup> bucket"
type_synonym schedule = "string \<rightharpoonup> tiers"

text \<open>
  \<^verbatim>\<open>
  const schedule = Object.values(prefixToMapId).reduce((acc, mapId) => {
    acc[mapId] = { major: {}, minor: {} };
    return acc;
  }, {});
  \<close>
\<close>

definition seed :: schedule where
  "seed =
     fold (\<lambda>mapId acc. acc(mapId \<mapsto> [''major'' \<mapsto> Map.empty, ''minor'' \<mapsto> Map.empty]))
       (map snd prefixToMapId) Map.empty"

text \<open>
  \<^verbatim>\<open>/^([a-zA-Z]+)(Minor|Major)$/.exec(key)\<close>: the last five characters are the tier, the
  characters before them the prefix, which is not empty and all letters.
\<close>

definition match_key :: "string \<Rightarrow> (string \<times> string) option" where
  "match_key key =
     (let n = length key - 5; prefix = take n key; tierRaw = drop n key
      in if prefix \<noteq> [] \<and> list_all is_alpha prefix \<and> (tierRaw = ''Minor'' \<or> tierRaw = ''Major'')
         then Some (prefix, tierRaw) else None)"

text \<open>
  \<^verbatim>\<open>typeof rawName === "string" ? rawName.trim() : String(rawName || "")\<close>
\<close>

definition eventName_of :: "json \<Rightarrow> error + string" where
  "eventName_of rawName =
     (if typeof rawName = ''string'' then (case rawName of JStr s \<Rightarrow> Inr (trim s) | _ \<Rightarrow> Inr [])
      else if truthy rawName then ToString rawName else Inr [])"

text \<open>
  \<^verbatim>\<open>schedule[mapId][tier][hour.toString()] = slug\<close>. Reading a property of
  \<^verbatim>\<open>undefined\<close> throws a TypeError. When \<open>mapId\<close> is a member of \<^verbatim>\<open>Object.prototype\<close>
  the key is the source text of a built-in function, which the schedule never has.
\<close>

definition assign_slot :: "schedule \<Rightarrow> string property \<Rightarrow> string \<Rightarrow> string \<Rightarrow> string \<Rightarrow> error + schedule" where
  "assign_slot schedule mapId tier hour slug =
     (case mapId of
        Own m \<Rightarrow>
          (case schedule m of
             None \<Rightarrow> Inl TypeError
           | Some ts \<Rightarrow>
               (case ts tier of
                  None \<Rightarrow> Inl TypeError
                | Some b \<Rightarrow> Inr (schedule(m \<mapsto> ts(tier \<mapsto> b(hour \<mapsto> slug))))))
      | _ \<Rightarrow> Inl TypeError)"

text \<open>The body of the inner loop, lines 72 to 106, for one field of an entry.\<close>

definition process_field :: "(string \<times> json) list \<Rightarrow> jsnum \<Rightarrow> string \<times> json \<Rightarrow> schedule \<Rightarrow> error + schedule" where
  "process_field eventTypes hour field schedule =
     (case field of (key, rawName) \<Rightarrow>
        if key = ''hour'' then Inr schedule
        else
          (case match_key key of
             None \<Rightarrow> Inr schedule
           | Some (prefix, tierRaw) \<Rightarrow>
               let mapId = get_prop prefixToMapId prefix
               in if \<not> truthy_prop (\<lambda>s. s \<noteq> []) mapId then Inl (UnexpectedMapPrefix prefix)
                  else
                    let tier = toLowerCase tierRaw
                    in (case eventName_of rawName of
                          Inl e \<Rightarrow> Inl e
                        | Inr eventName \<Rightarrow>
                            if eventName = [] \<or> toLowerCase eventName = ''none'' then Inr schedule
                            else
                              let slug = slugify eventName
                              in if \<not> truthy_prop truthy (get_prop eventTypes slug)
                                 then Inl (MissingEventType eventName slug)
                                 else assign_slot schedule mapId tier (num_to_string hour) slug)))"

fun process_fields :: "(string \<times> json) list \<Rightarrow> jsnum \<Rightarrow> (string \<times> json) list \<Rightarrow> schedule \<Rightarrow> error + schedule" where
  "process_fields eventTypes hour [] schedule = Inr schedule"
| "process_fields eventTypes hour (field # rest) schedule =
     (case process_field eventTypes hour field schedule of
        Inl e \<Rightarrow> Inl e
      | Inr schedule' \<Rightarrow> process_fields eventTypes hour rest schedule')"

text \<open>
  \<^verbatim>\<open>entry.hour\<close>: an own property of an object; \<^verbatim>\<open>undefined\<close> on an array, a string, a
  number or a boolean; a TypeError on \<^verbatim>\<open>null\<close>.
\<close>

definition hour_of :: "json \<Rightarrow> error + json property" where
  "hour_of entry =
     (case entry of
        JNull \<Rightarrow> Inl TypeError
      | JObj fs \<Rightarrow> Inr (get_prop fs ''hour'')
      | _ \<Rightarrow> Inr Undefined)"

text \<open>\<^verbatim>\<open>typeof hour === "number"\<close>, with the number when it holds.\<close>

definition number_of :: "json property \<Rightarrow> jsnum option" where
  "number_of p = (case p of Own (JNum n) \<Rightarrow> Some n | _ \<Rightarrow> None)"

text \<open>The body of the outer loop, lines 66 to 107, for one entry.\<close>

definition process_entry :: "(string \<times> json) list \<Rightarrow> json \<Rightarrow> schedule \<Rightarrow> error + schedule" where
  "process_entry eventTypes entry schedule =
     (case hour_of entry of
        Inl e \<Rightarrow> Inl e
      | Inr h \<Rightarrow>
          (case number_of h of
             None \<Rightarrow> Inr schedule
           | Some hour \<Rightarrow> process_fields eventTypes hour (own_entries entry) schedule))"

fun process_entries :: "(string \<times> json) list \<Rightarrow> json list \<Rightarrow> schedule \<Rightarrow> error + schedule" where
  "process_entries eventTypes [] schedule = Inr schedule"
| "process_entries eventTypes (entry # rest) schedule =
     (case process_entry eventTypes entry schedule of
        Inl e \<Rightarrow> Inl e
      | Inr schedule' \<Rightarrow> process_entries eventTypes rest schedule')"

definition buildSchedule :: "json list \<Rightarrow> (string \<times> json) list \<Rightarrow> error + schedule" where
  "buildSchedule fullRotation eventTypes = process_entries eventTypes fullRotation seed"

text \<open>\<^verbatim>\<open>schedule[mapId][tier][hour]\<close>, read from a finished schedule.\<close>

definition slot :: "schedule \<Rightarrow> string \<Rightarrow> string \<Rightarrow> string \<Rightarrow> string option" where
  "slot schedule mapId tier hour =
     (case schedule mapId of
        None \<Rightarrow> None
      | Some ts \<Rightarrow> (case ts tier of None \<Rightarrow> None | Some b \<Rightarrow> b hour))"

section \<open>mergeEventLocalizations\<close>

text \<open>
  \<^verbatim>\<open>remoteEventTypes?.[slug]?.localizations\<close>, \<open>None\<close> for \<^verbatim>\<open>undefined\<close>. The remote
  mapping is a parsed object (an absent one is the default \<^verbatim>\<open>{}\<close>). Only an object
  among the JSON values can have a property of that name; the members of
  \<^verbatim>\<open>Object.prototype\<close> have none.
\<close>

definition remote_localizations :: "(string \<times> json) list \<Rightarrow> string \<Rightarrow> json option" where
  "remote_localizations remoteEventTypes slug =
     (case get_prop remoteEventTypes slug of
        Own (JObj gs) \<Rightarrow> (case get_prop gs ''localizations'' of Own v \<Rightarrow> Some v | _ \<Rightarrow> None)
      | _ \<Rightarrow> None)"

text \<open>
  \<^verbatim>\<open>
  for (const [slug, config] of Object.entries(eventTypes)) {
    const localizations = remoteEventTypes?.[slug]?.localizations;
    if (!localizations || typeof localizations !== "object") {
      continue;
    }
    next[slug] = { ...config, localizations };
  }
  \<close>
\<close>

definition merge_step :: "(string \<times> json) list \<Rightarrow> string \<times> json \<Rightarrow> (string \<times> json) list \<Rightarrow> (string \<times> json) list" where
  "merge_step remoteEventTypes field next =
     (case field of (slug, config) \<Rightarrow>
        (case remote_localizations remoteEventTypes slug of
           None \<Rightarrow> next
         | Some localizations \<Rightarrow>
             if \<not> truthy localizations \<or> typeof localizations \<noteq> ''object'' then next
             else set_prop slug
                    (JObj (set_prop ''localizations'' localizations (own_entries config))) next))"

fun merge_loop :: "(string \<times> json) list \<Rightarrow> (string \<times> json) list \<Rightarrow> (string \<times> json) list \<Rightarrow> (string \<times> json) list" where
  "merge_loop remoteEventTypes [] next = next"
| "merge_loop remoteEventTypes (field # rest) next =
     merge_loop remoteEventTypes rest (merge_step remoteEventTypes field next)"

definition mergeEventLocalizations :: "(string \<times> json) list \<Rightarrow> (string \<times> json) list \<Rightarrow> (string \<times> json) list" where
  "mergeEventLocalizations eventTypes remoteEventTypes =
     merge_loop remoteEventTypes eventTypes eventTypes"

section \<open>Predicates used in the statements\<close>

text \<open>
  The state of a schedule that the seeding establishes: the keys are the five location
  identifiers and every location has its two buckets.
\<close>

definition seeded :: "schedule \<Rightarrow> bool" where
  "seeded s =
     (dom s = set (map snd prefixToMapId)
      \<and> (\<forall>m ts. s m = Some ts \<longrightarrow> ts ''major'' \<noteq> None \<and> ts ''minor'' \<noteq> None))"

text \<open>The slot of a result of \<open>buildSchedule\<close>; none when the call threw.\<close>

definition result_slot :: "error + schedule \<Rightarrow> string \<Rightarrow> string \<Rightarrow> string \<Rightarrow> string option" where
  "result_slot r mapId tier hour = (case r of Inl _ \<Rightarrow> None | Inr s \<Rightarrow> slot s mapId tier hour)"

text \<open>What one round of the merge loop leaves under the key \<open>slug\<close>.\<close>

definition merged_entry :: "(string \<times> json) list \<Rightarrow> string \<Rightarrow> json \<Rightarrow> json" where
  "merged_entry remoteEventTypes slug config =
     (case remote_localizations remoteEventTypes slug of
        None \<Rightarrow> config
      | Some localizations \<Rightarrow>
          if truthy localizations \<and> typeof localizations = ''object''
          then JObj (set_prop ''localizations'' localizations (own_entries config))
          else config)"

text \<open>
  The specification's "structured mapping", in its own words: a mapping from language code
  to translated strings, that is, a JSON object.
\<close>

definition is_mapping :: "json \<Rightarrow> bool" where
  "is_mapping v = (case v of JObj _ \<Rightarrow> True | _ \<Rightarrow> False)"

section \<open>Properties of the strings\<close>

lemma slug_char_not_hyphen: "is_slug_char c \<Longrightarrow> c \<noteq> CHR ''-''"
  by (auto simp: is_slug_char_def)

lemma slug_char_not_upper: "is_slug_char c \<Longrightarrow> \<not> is_upper c"
  by (auto simp: is_slug_char_def is_upper_def Let_def)

lemma slug_char_not_quote: "is_slug_char c \<Longrightarrow> \<not> is_quote c"
  by (auto simp: is_slug_char_def is_quote_def)

lemma toLowerCase_char_id: "\<not> is_upper c \<Longrightarrow> toLowerCase_char c = c"
  by (cases c) simp

lemma hyphen_not_upper: "\<not> is_upper (CHR ''-'')"
  by (simp add: is_upper_def)

lemma hyphen_not_slug_char: "\<not> is_slug_char (CHR ''-'')"
  by (simp add: is_slug_char_def)

lemma tidy_dropWhile_slug:
  "tidy (replace_runs (dropWhile (\<lambda>d. \<not> is_slug_char d) cs)) \<Longrightarrow>
   (case replace_runs (dropWhile (\<lambda>d. \<not> is_slug_char d) cs) of [] \<Rightarrow> True | d # _ \<Rightarrow> is_slug_char d)"
proof (cases "dropWhile (\<lambda>d. \<not> is_slug_char d) cs")
  case Nil
  then show ?thesis by (simp only: replace_runs.simps list.case)
next
  case (Cons a as)
  then have "is_slug_char a"
    using hd_dropWhile [of "\<lambda>d. \<not> is_slug_char d" cs] by auto
  with Cons show ?thesis by simp
qed

lemma tidy_replace_runs: "tidy (replace_runs s)"
proof (induction s rule: replace_runs.induct)
  case 1
  show ?case by simp
next
  case (2 c cs)
  show ?case
  proof (cases "is_slug_char c")
    case True
    with 2 show ?thesis by simp
  next
    case False
    with 2 have t: "tidy (replace_runs (dropWhile (\<lambda>d. \<not> is_slug_char d) cs))" by simp
    from tidy_dropWhile_slug [OF t] t False show ?thesis by simp
  qed
qed

lemma replace_runs_tidy: "tidy s \<Longrightarrow> replace_runs s = s"
proof (induction s)
  case Nil
  show ?case by simp
next
  case (Cons c cs)
  show ?case
  proof (cases "is_slug_char c")
    case True
    with Cons show ?thesis by simp
  next
    case False
    with Cons.prems have c: "c = CHR ''-''"
      and nxt: "(case cs of [] \<Rightarrow> True | d # _ \<Rightarrow> is_slug_char d)" and t: "tidy cs"
      by auto
    from nxt have "dropWhile (\<lambda>d. \<not> is_slug_char d) cs = cs"
      by (cases cs) auto
    with False c Cons.IH [OF t] show ?thesis by simp
  qed
qed

lemma tidy_chars: "tidy s \<Longrightarrow> c \<in> set s \<Longrightarrow> is_slug_char c \<or> c = CHR ''-''"
  by (induction s) auto

lemma toLowerCase_tidy: "tidy s \<Longrightarrow> toLowerCase s = s"
  unfolding toLowerCase_def
  by (rule map_idI) (auto dest!: tidy_chars intro: toLowerCase_char_id
      simp: slug_char_not_upper hyphen_not_upper)

lemma hyphen_not_quote: "\<not> is_quote (CHR ''-'')"
  by (simp add: is_quote_def)

lemma remove_quotes_tidy:
  assumes "tidy s"
  shows "remove_quotes s = s"
  unfolding remove_quotes_def
proof (rule filter_True)
  show "\<forall>c\<in>set s. \<not> is_quote c"
  proof
    fix c
    assume "c \<in> set s"
    with assms have "is_slug_char c \<or> c = CHR ''-''" by (rule tidy_chars)
    then show "\<not> is_quote c"
      using slug_char_not_quote hyphen_not_quote by blast
  qed
qed

lemma tidy_tl: "tidy (c # cs) \<Longrightarrow> tidy cs"
  by simp

lemma tidy_dropWhile: "tidy s \<Longrightarrow> tidy (dropWhile P s)"
  by (induction s) auto

lemma tidy_append_left: "tidy (xs @ ys) \<Longrightarrow> tidy xs"
proof (induction xs)
  case Nil
  show ?case by simp
next
  case (Cons x xs)
  then show ?case by (cases xs) auto
qed

lemma tidy_strip_end: "tidy s \<Longrightarrow> tidy (rev (dropWhile P (rev s)))"
proof (induction s rule: rev_induct)
  case Nil
  show ?case by simp
next
  case (snoc x xs)
  from snoc.prems have "tidy xs" by (rule tidy_append_left)
  with snoc show ?case by simp
qed

lemma tidy_strip_hyphens: "tidy s \<Longrightarrow> tidy (strip_hyphens s)"
  unfolding strip_hyphens_def by (intro tidy_strip_end tidy_dropWhile)

lemma strip_end_keeps_head:
  "s = [] \<or> \<not> P (hd s) \<Longrightarrow>
   rev (dropWhile P (rev s)) = [] \<or> \<not> P (hd (rev (dropWhile P (rev s))))"
proof (induction s rule: rev_induct)
  case Nil
  show ?case by simp
next
  case (snoc x xs)
  show ?case
  proof (cases "P x")
    case True
    with snoc.prems have "xs = [] \<or> \<not> P (hd xs)" by (cases xs) auto
    from snoc.IH [OF this] True show ?thesis by simp
  next
    case False
    with snoc.prems show ?thesis by simp
  qed
qed

lemma dropWhile_self: "s = [] \<or> \<not> P (hd s) \<Longrightarrow> dropWhile P s = s"
  by (cases s) auto

lemma strip_hyphens_idem: "strip_hyphens (strip_hyphens s) = strip_hyphens s"
proof -
  let ?a = "dropWhile is_hyphen s"
  let ?b = "rev (dropWhile is_hyphen (rev ?a))"
  have "?a = [] \<or> \<not> is_hyphen (hd ?a)"
    using hd_dropWhile [of is_hyphen s] by auto
  then have "?b = [] \<or> \<not> is_hyphen (hd ?b)" by (rule strip_end_keeps_head)
  then have "dropWhile is_hyphen ?b = ?b" by (rule dropWhile_self)
  then show ?thesis by (simp add: strip_hyphens_def)
qed

lemma slugify_example1: "slugify ''Sea Dragon's Lair!'' = ''sea-dragons-lair''"
  by (simp add: slugify_def toLowerCase_def is_upper_def remove_quotes_def is_quote_def
      is_slug_char_def strip_hyphens_def is_hyphen_def)

lemma slugify_example2: "slugify ''sea-dragons-lair'' = ''sea-dragons-lair''"
  by (simp add: slugify_def toLowerCase_def is_upper_def remove_quotes_def is_quote_def
      is_slug_char_def strip_hyphens_def is_hyphen_def)

text \<open>The Latin-1 model is idempotent.\<close>

lemma slugify_latin1_idempotent: "slugify (slugify s) = slugify s"
proof -
  let ?r = "replace_runs (remove_quotes (toLowerCase s))"
  have t: "tidy (strip_hyphens ?r)"
    by (intro tidy_strip_hyphens tidy_replace_runs)
  have "slugify (strip_hyphens ?r) = strip_hyphens (strip_hyphens ?r)"
    by (simp add: slugify_def [of "strip_hyphens ?r"] toLowerCase_tidy [OF t]
        remove_quotes_tidy [OF t] replace_runs_tidy [OF t])
  then show ?thesis
    by (simp add: slugify_def [of s] strip_hyphens_idem)
qed

section \<open>Properties of slugify on UTF-16 strings\<close>

lemma slug_unit_ascii: "is_slug_unit c \<Longrightarrow> is_ascii c"
  by (auto simp: is_slug_unit_def is_ascii_def Let_def)

lemma slug_unit_lower: "is_slug_unit c \<Longrightarrow> ascii_lower c = c"
  by (auto simp: is_slug_unit_def ascii_lower_def Let_def)

lemma slug_unit_not_quote: "is_slug_unit c \<Longrightarrow> \<not> is_quote_unit c"
  by (auto simp: is_slug_unit_def is_quote_unit_def Let_def)

lemma hyphen_unit_ascii: "is_ascii 0x2D"
  by (simp add: is_ascii_def)

lemma hyphen_unit_lower: "ascii_lower 0x2D = 0x2D"
  by (simp add: ascii_lower_def)

lemma hyphen_unit_not_quote: "\<not> is_quote_unit 0x2D"
  by (simp add: is_quote_unit_def)

lemma hyphen_unit_not_slug: "\<not> is_slug_unit 0x2D"
  by (simp add: is_slug_unit_def)

lemma tidy_utf16_after_run:
  "(case replace_runs_utf16 (dropWhile (\<lambda>d. \<not> is_slug_unit d) cs) of
      [] \<Rightarrow> True | d # _ \<Rightarrow> is_slug_unit d)"
proof (cases "dropWhile (\<lambda>d. \<not> is_slug_unit d) cs")
  case Nil
  then show ?thesis by (simp only: replace_runs_utf16.simps list.case)
next
  case (Cons a as)
  then have "is_slug_unit a"
    using hd_dropWhile [of "\<lambda>d. \<not> is_slug_unit d" cs] by auto
  with Cons show ?thesis by simp
qed

lemma tidy_utf16_replace_runs: "tidy_utf16 (replace_runs_utf16 s)"
proof (induction s rule: replace_runs_utf16.induct)
  case 1
  show ?case by simp
next
  case (2 c cs)
  show ?case
  proof (cases "is_slug_unit c")
    case True
    with 2 show ?thesis by simp
  next
    case False
    with 2 have "tidy_utf16 (replace_runs_utf16 (dropWhile (\<lambda>d. \<not> is_slug_unit d) cs))"
      by simp
    with tidy_utf16_after_run [of cs] False show ?thesis by simp
  qed
qed

lemma replace_runs_utf16_tidy: "tidy_utf16 s \<Longrightarrow> replace_runs_utf16 s = s"
proof (induction s)
  case Nil
  show ?case by simp
next
  case (Cons c cs)
  show ?case
  proof (cases "is_slug_unit c")
    case True
    with Cons show ?thesis by simp
  next
    case False
    with Cons.prems have c: "c = 0x2D"
      and nxt: "(case cs of [] \<Rightarrow> True | d # _ \<Rightarrow> is_slug_unit d)" and t: "tidy_utf16 cs"
      by auto
    from nxt have "dropWhile (\<lambda>d. \<not> is_slug_unit d) cs = cs"
      by (cases cs) auto
    with False c Cons.IH [OF t] show ?thesis by simp
  qed
qed

lemma tidy_utf16_units: "tidy_utf16 s \<Longrightarrow> c \<in> set s \<Longrightarrow> is_slug_unit c \<or> c = 0x2D"
  by (induction s) auto

text \<open>
  A tidy string is ASCII and has no capital, so \<^verbatim>\<open>toLowerCase\<close> returns it, whatever the
  Unicode tables say of other strings.
\<close>

lemma toLowerCase_utf16_tidy:
  assumes "tidy_utf16 s"
  shows "toLowerCase_utf16 unicode_lower s = s"
proof -
  have u: "is_slug_unit c \<or> c = 0x2D" if "c \<in> set s" for c
    using assms that by (rule tidy_utf16_units)
  have "list_all is_ascii s"
    unfolding list_all_iff using u slug_unit_ascii hyphen_unit_ascii by blast
  moreover have "map ascii_lower s = s"
    by (rule map_idI) (use u slug_unit_lower hyphen_unit_lower in blast)
  ultimately show ?thesis by (simp add: toLowerCase_utf16_def)
qed

lemma remove_quotes_utf16_tidy:
  assumes "tidy_utf16 s"
  shows "remove_quotes_utf16 s = s"
  unfolding remove_quotes_utf16_def
proof (rule filter_True)
  show "\<forall>c\<in>set s. \<not> is_quote_unit c"
  proof
    fix c
    assume "c \<in> set s"
    with assms have "is_slug_unit c \<or> c = 0x2D" by (rule tidy_utf16_units)
    then show "\<not> is_quote_unit c"
      using slug_unit_not_quote hyphen_unit_not_quote by blast
  qed
qed

lemma tidy_utf16_dropWhile: "tidy_utf16 s \<Longrightarrow> tidy_utf16 (dropWhile P s)"
  by (induction s) auto

lemma tidy_utf16_append_left: "tidy_utf16 (xs @ ys) \<Longrightarrow> tidy_utf16 xs"
proof (induction xs)
  case Nil
  show ?case by simp
next
  case (Cons x xs)
  then show ?case by (cases xs) auto
qed

lemma tidy_utf16_strip_end: "tidy_utf16 s \<Longrightarrow> tidy_utf16 (rev (dropWhile P (rev s)))"
proof (induction s rule: rev_induct)
  case Nil
  show ?case by simp
next
  case (snoc x xs)
  from snoc.prems have "tidy_utf16 xs" by (rule tidy_utf16_append_left)
  with snoc show ?case by simp
qed

lemma tidy_utf16_strip_hyphens: "tidy_utf16 s \<Longrightarrow> tidy_utf16 (strip_hyphens_utf16 s)"
  unfolding strip_hyphens_utf16_def by (intro tidy_utf16_strip_end tidy_utf16_dropWhile)

lemma strip_hyphens_utf16_idem:
  "strip_hyphens_utf16 (strip_hyphens_utf16 s) = strip_hyphens_utf16 s"
proof -
  let ?a = "dropWhile is_hyphen_unit s"
  let ?b = "rev (dropWhile is_hyphen_unit (rev ?a))"
  have "?a = [] \<or> \<not> is_hyphen_unit (hd ?a)"
    using hd_dropWhile [of is_hyphen_unit s] by auto
  then have "?b = [] \<or> \<not> is_hyphen_unit (hd ?b)" by (rule strip_end_keeps_head)
  then have "dropWhile is_hyphen_unit ?b = ?b" by (rule dropWhile_self)
  then show ?thesis by (simp add: strip_hyphens_utf16_def)
qed

lemmas utf16_eval = slugify_utf16_def toLowerCase_utf16_def is_ascii_def ascii_lower_def
  remove_quotes_utf16_def is_quote_unit_def is_slug_unit_def strip_hyphens_utf16_def
  is_hyphen_unit_def utf16_of_def

lemma slugify_utf16_example1:
  "slugify_utf16 unicode_lower (utf16_of ''Sea Dragon's Lair!'') = utf16_of ''sea-dragons-lair''"
  by (simp add: utf16_eval)

lemma slugify_utf16_example2:
  "slugify_utf16 unicode_lower (utf16_of ''sea-dragons-lair'') = utf16_of ''sea-dragons-lair''"
  by (simp add: utf16_eval)

text \<open>
  Names outside Latin-1. The Kelvin sign U+212A, whose lower case is the ASCII letter k;
  the capital I with dot U+0130, whose lower case is two code units, i and U+0307; and a
  name with an accented letter and a typographic apostrophe U+2019, neither of which is
  in \<^verbatim>\<open>[a-z0-9]\<close>. The parameter is given on the string at hand only.
\<close>

lemma slugify_utf16_kelvin:
  "slugify_utf16 (\<lambda>s. if s = [0x212A] then [0x6B] else s) [0x212A] = utf16_of ''k''"
  by (simp add: utf16_eval)

lemma slugify_utf16_dotted_I:
  "slugify_utf16 (\<lambda>s. if s = [0x130] then [0x69, 0x307] else s) [0x130] = utf16_of ''i''"
  by (simp add: utf16_eval)

lemma slugify_utf16_apostrophe:
  "slugify_utf16 (\<lambda>s. if s = [0x43, 0x61, 0x66, 0xE9, 0x2019, 0x73]
                        then [0x63, 0x61, 0x66, 0xE9, 0x2019, 0x73] else s)
     [0x43, 0x61, 0x66, 0xE9, 0x2019, 0x73] = utf16_of ''caf-s''"
  by (simp add: utf16_eval)

text \<open>
  Claim C5. The identifier normaliser is total and idempotent on strings. For every
  JavaScript string \<open>name\<close> (every list of 16-bit code units) and whatever the Unicode
  case mappings of non-ASCII strings are, \<open>slugify\<close> returns a string and
  \<open>slugify (slugify name) = slugify name\<close>; it sends \<^verbatim>\<open>Sea Dragon's Lair!\<close> to
  \<^verbatim>\<open>sea-dragons-lair\<close> and leaves \<^verbatim>\<open>sea-dragons-lair\<close> as it is. Totality is the
  termination of \<open>replace_runs_utf16\<close>, proved at its definition; no step of the function
  can fail on a string.
\<close>

theorem slugify_idempotent:
  "slugify_utf16 unicode_lower (slugify_utf16 unicode_lower name) = slugify_utf16 unicode_lower name
   \<and> slugify_utf16 unicode_lower (utf16_of ''Sea Dragon's Lair!'') = utf16_of ''sea-dragons-lair''
   \<and> slugify_utf16 unicode_lower (utf16_of ''sea-dragons-lair'') = utf16_of ''sea-dragons-lair''"
proof -
  let ?r = "replace_runs_utf16 (remove_quotes_utf16 (toLowerCase_utf16 unicode_lower name))"
  have t: "tidy_utf16 (strip_hyphens_utf16 ?r)"
    by (intro tidy_utf16_strip_hyphens tidy_utf16_replace_runs)
  have "slugify_utf16 unicode_lower (strip_hyphens_utf16 ?r)
      = strip_hyphens_utf16 (strip_hyphens_utf16 ?r)"
    by (simp add: slugify_utf16_def [of unicode_lower "strip_hyphens_utf16 ?r"]
        toLowerCase_utf16_tidy [OF t] remove_quotes_utf16_tidy [OF t] replace_runs_utf16_tidy [OF t])
  then have "slugify_utf16 unicode_lower (slugify_utf16 unicode_lower name)
      = slugify_utf16 unicode_lower name"
    by (simp add: slugify_utf16_def [of unicode_lower name] strip_hyphens_utf16_idem)
  with slugify_utf16_example1 slugify_utf16_example2 show ?thesis by simp
qed

section \<open>The two models of slugify agree\<close>

text \<open>
  The Latin-1 \<open>slugify\<close> that \<open>buildSchedule\<close> computes with is the function on UTF-16
  strings, read through \<open>utf16_of\<close>: on every string where the two \<^verbatim>\<open>toLowerCase\<close> agree,
  and so on every ASCII string, whatever the Unicode tables are.
\<close>

lemma unat_of_char: "unat (of_char c :: 16 word) = (of_char c :: nat)"
proof -
  have "(of_char c :: nat) < 2 ^ 16"
    by (rule less_trans [OF nat_of_char_less_256]) simp
  moreover have "(of_char c :: 16 word) = of_nat (of_char c)"
    by (simp add: of_nat_of_char)
  ultimately show ?thesis by (simp add: unat_of_nat)
qed

lemma is_slug_unit_of_char: "is_slug_unit (of_char c) = is_slug_char c"
  by (simp add: is_slug_unit_def is_slug_char_def unat_of_char)

lemma of_char_16_eq_iff: "(of_char c :: 16 word) = of_char d \<longleftrightarrow> c = d"
proof
  assume "(of_char c :: 16 word) = of_char d"
  then have "unat (of_char c :: 16 word) = unat (of_char d :: 16 word)" by simp
  then show "c = d" by (simp add: unat_of_char)
qed simp

lemma is_quote_unit_of_char: "is_quote_unit (of_char c) = is_quote c"
proof -
  have "(0x27 :: 16 word) = of_char (CHR 0x27)" and "(0x22 :: 16 word) = of_char (CHR 0x22)"
    by simp_all
  then show ?thesis
    unfolding is_quote_unit_def is_quote_def by (simp only: of_char_16_eq_iff)
qed

lemma is_hyphen_unit_of_char: "is_hyphen_unit (of_char c) = is_hyphen c"
proof -
  have "(0x2D :: 16 word) = of_char (CHR ''-'')" by simp
  then show ?thesis
    unfolding is_hyphen_unit_def is_hyphen_def by (simp only: of_char_16_eq_iff)
qed

lemma low_bits:
  "(of_bool b0 + (2 * of_bool b1 + (4 * of_bool b2 + (8 * of_bool b3 + 16 * of_bool b4))) :: nat)
     \<le> 31"
  by (cases b0; cases b1; cases b2; cases b3; cases b4) simp_all

lemma upper_bit:
  assumes "is_upper (Char b0 b1 b2 b3 b4 b5 b6 b7)"
  shows "\<not> b5"
  using assms low_bits [of b0 b1 b2 b3 b4]
  by (cases b5; cases b6; cases b7) (auto simp: is_upper_def Let_def)

lemma of_char_toLowerCase_char:
  "(of_char (toLowerCase_char c) :: nat) = (if is_upper c then of_char c + 32 else of_char c)"
proof (cases c)
  case (Char b0 b1 b2 b3 b4 b5 b6 b7)
  show ?thesis
  proof (cases "is_upper c")
    case True
    with Char have "\<not> b5" using upper_bit by blast
    with True Char show ?thesis by simp
  next
    case False
    with Char show ?thesis by simp
  qed
qed

lemma ascii_lower_of_char:
  assumes "(of_char c :: nat) < 128"
  shows "ascii_lower (of_char c) = of_char (toLowerCase_char c)"
proof -
  have "(of_char (toLowerCase_char c) :: 16 word) = of_nat (of_char (toLowerCase_char c))"
    by (simp add: of_nat_of_char)
  also have "\<dots> = of_nat (if is_upper c then of_char c + 32 else of_char c)"
    by (simp only: of_char_toLowerCase_char)
  also have "\<dots> = (if is_upper c then of_char c + 32 else of_char c)"
    by (simp add: of_nat_of_char)
  also have "\<dots> = ascii_lower (of_char c)"
    using assms by (simp add: ascii_lower_def is_upper_def unat_of_char Let_def)
  finally show ?thesis by simp
qed

lemma toLowerCase_utf16_of_ascii:
  assumes "list_all (\<lambda>c. (of_char c :: nat) < 128) s"
  shows "toLowerCase_utf16 unicode_lower (utf16_of s) = utf16_of (toLowerCase s)"
proof -
  from assms have "list_all is_ascii (utf16_of s)"
    by (simp add: list_all_iff utf16_of_def is_ascii_def unat_of_char)
  moreover from assms have "map ascii_lower (utf16_of s) = utf16_of (toLowerCase s)"
    by (simp add: list_all_iff utf16_of_def toLowerCase_def ascii_lower_of_char)
  ultimately show ?thesis by (simp add: toLowerCase_utf16_def)
qed

lemma remove_quotes_utf16_of: "remove_quotes_utf16 (utf16_of s) = utf16_of (remove_quotes s)"
  by (simp add: remove_quotes_utf16_def remove_quotes_def utf16_of_def filter_map comp_def
      is_quote_unit_of_char)

lemma dropWhile_not_slug_utf16_of:
  "dropWhile (\<lambda>d. \<not> is_slug_unit d) (utf16_of s) = utf16_of (dropWhile (\<lambda>d. \<not> is_slug_char d) s)"
  by (simp add: utf16_of_def dropWhile_map comp_def is_slug_unit_of_char)

lemma replace_runs_utf16_of: "replace_runs_utf16 (utf16_of s) = utf16_of (replace_runs s)"
proof (induction s rule: replace_runs.induct)
  case 1
  show ?case by (simp add: utf16_of_def)
next
  case (2 c cs)
  have cons: "utf16_of (c # cs) = of_char c # utf16_of cs" by (simp add: utf16_of_def)
  show ?case
  proof (cases "is_slug_char c")
    case True
    with 2 show ?thesis by (simp add: cons is_slug_unit_of_char) (simp add: utf16_of_def)
  next
    case False
    with 2 show ?thesis
      by (simp add: cons is_slug_unit_of_char dropWhile_not_slug_utf16_of) (simp add: utf16_of_def)
  qed
qed

lemma dropWhile_hyphen_utf16_of:
  "dropWhile is_hyphen_unit (utf16_of s) = utf16_of (dropWhile is_hyphen s)"
  by (simp add: utf16_of_def dropWhile_map comp_def is_hyphen_unit_of_char)

lemma rev_utf16_of: "rev (utf16_of s) = utf16_of (rev s)"
  by (simp add: utf16_of_def rev_map)

lemma strip_hyphens_utf16_of: "strip_hyphens_utf16 (utf16_of s) = utf16_of (strip_hyphens s)"
  unfolding strip_hyphens_utf16_def strip_hyphens_def
  by (simp only: dropWhile_hyphen_utf16_of rev_utf16_of)

lemma slugify_utf16_of:
  assumes "toLowerCase_utf16 unicode_lower (utf16_of s) = utf16_of (toLowerCase s)"
  shows "slugify_utf16 unicode_lower (utf16_of s) = utf16_of (slugify s)"
  by (simp add: slugify_utf16_def slugify_def assms remove_quotes_utf16_of replace_runs_utf16_of
      strip_hyphens_utf16_of)

lemma slugify_utf16_of_ascii:
  "list_all (\<lambda>c. (of_char c :: nat) < 128) s \<Longrightarrow>
   slugify_utf16 unicode_lower (utf16_of s) = utf16_of (slugify s)"
  by (intro slugify_utf16_of toLowerCase_utf16_of_ascii)

section \<open>The seeded locations\<close>

lemma seed_eq:
  "seed = [''dam-battleground'' \<mapsto> [''major'' \<mapsto> Map.empty, ''minor'' \<mapsto> Map.empty],
           ''buried-city'' \<mapsto> [''major'' \<mapsto> Map.empty, ''minor'' \<mapsto> Map.empty],
           ''the-spaceport'' \<mapsto> [''major'' \<mapsto> Map.empty, ''minor'' \<mapsto> Map.empty],
           ''blue-gate'' \<mapsto> [''major'' \<mapsto> Map.empty, ''minor'' \<mapsto> Map.empty],
           ''stella-montis'' \<mapsto> [''major'' \<mapsto> Map.empty, ''minor'' \<mapsto> Map.empty]]"
  by (simp add: seed_def prefixToMapId_def)

lemma seeded_seed: "seeded seed"
  unfolding seeded_def seed_eq
  by (auto simp: prefixToMapId_def split: if_splits)

lemma assign_slot_seeded:
  assumes "seeded s" and "assign_slot s mapId tier hour slug = Inr s'"
  shows "seeded s'"
proof -
  from assms(2) obtain m ts b where m: "mapId = Own m" and sm: "s m = Some ts"
    and tt: "ts tier = Some b" and s': "s' = s(m \<mapsto> ts(tier \<mapsto> b(hour \<mapsto> slug)))"
    by (auto simp: assign_slot_def split: property.splits option.splits)
  from sm have "m \<in> dom s" by auto
  then have "dom s' = dom s" unfolding s' by auto
  moreover have "ts' ''major'' \<noteq> None \<and> ts' ''minor'' \<noteq> None" if "s' k = Some ts'" for k ts'
  proof (cases "k = m")
    case True
    with that s' have "ts' = ts(tier \<mapsto> b(hour \<mapsto> slug))" by simp
    moreover from assms(1) sm have "ts ''major'' \<noteq> None \<and> ts ''minor'' \<noteq> None"
      unfolding seeded_def by blast
    ultimately show ?thesis by simp
  next
    case False
    with that s' have "s k = Some ts'" by simp
    with assms(1) show ?thesis unfolding seeded_def by blast
  qed
  ultimately show ?thesis using assms(1) unfolding seeded_def by auto
qed

lemma process_field_seeded:
  assumes "seeded s" and "process_field c h f s = Inr s'"
  shows "seeded s'"
proof (cases f)
  case (Pair key rawName)
  with assms(2) have "s' = s \<or> (\<exists>mapId tier hour slug. assign_slot s mapId tier hour slug = Inr s')"
    unfolding process_field_def
    by (auto simp: Let_def split: if_splits option.splits sum.splits prod.splits)
  with assms(1) show ?thesis using assign_slot_seeded by blast
qed

lemma process_fields_seeded:
  "seeded s \<Longrightarrow> process_fields c h fs s = Inr s' \<Longrightarrow> seeded s'"
proof (induction fs arbitrary: s)
  case Nil
  then show ?case by simp
next
  case (Cons f fs)
  from Cons.prems(2) obtain s1 where f: "process_field c h f s = Inr s1"
    and r: "process_fields c h fs s1 = Inr s'"
    by (auto split: sum.splits)
  from Cons.prems(1) f have "seeded s1" by (rule process_field_seeded)
  from Cons.IH [OF this r] show ?case .
qed

lemma process_entry_seeded:
  assumes "seeded s" and "process_entry c e s = Inr s'"
  shows "seeded s'"
proof -
  from assms(2) have "s' = s \<or> (\<exists>h fs. process_fields c h fs s = Inr s')"
    unfolding process_entry_def by (auto split: sum.splits option.splits)
  with assms(1) show ?thesis using process_fields_seeded by blast
qed

lemma process_entries_seeded:
  "seeded s \<Longrightarrow> process_entries c es s = Inr s' \<Longrightarrow> seeded s'"
proof (induction es arbitrary: s)
  case Nil
  then show ?case by simp
next
  case (Cons e es)
  from Cons.prems(2) obtain s1 where e: "process_entry c e s = Inr s1"
    and r: "process_entries c es s1 = Inr s'"
    by (auto split: sum.splits)
  from Cons.prems(1) e have "seeded s1" by (rule process_entry_seeded)
  from Cons.IH [OF this r] show ?case .
qed

lemma buildSchedule_seeded: "buildSchedule r c = Inr s \<Longrightarrow> seeded s"
  unfolding buildSchedule_def using seeded_seed by (rule process_entries_seeded)

text \<open>
  Claim C1. Whenever \<open>buildSchedule\<close> returns a schedule (it did not throw), for any
  rotation list and any catalog, every location identifier of the prefix table is a key of
  the schedule, and its entry has both a \<^verbatim>\<open>major\<close> and a \<^verbatim>\<open>minor\<close> bucket.
\<close>

theorem buildSchedule_seeds_every_location:
  assumes "buildSchedule fullRotation eventTypes = Inr schedule"
  shows "\<forall>mapId\<in>set (map snd prefixToMapId).
           \<exists>ts major minor.
             schedule mapId = Some ts \<and> ts ''major'' = Some major \<and> ts ''minor'' = Some minor"
proof
  fix mapId
  assume "mapId \<in> set (map snd prefixToMapId)"
  moreover from assms have sd: "seeded schedule" by (rule buildSchedule_seeded)
  ultimately have "mapId \<in> dom schedule" unfolding seeded_def by simp
  then obtain ts where ts: "schedule mapId = Some ts" by auto
  with sd have "ts ''major'' \<noteq> None \<and> ts ''minor'' \<noteq> None" unfolding seeded_def by blast
  with ts show "\<exists>ts major minor.
      schedule mapId = Some ts \<and> ts ''major'' = Some major \<and> ts ''minor'' = Some minor"
    by auto
qed

text \<open>
  The empty rotation list: the call returns the seeded schedule, read here at the first
  and the last location of the table.
\<close>

theorem buildSchedule_seeds_every_location_witness:
  "buildSchedule [] [] = Inr seed
   \<and> ''dam-battleground'' \<in> set (map snd prefixToMapId)
   \<and> (\<exists>ts major minor.
         seed ''dam-battleground'' = Some ts \<and> ts ''major'' = Some major \<and> ts ''minor'' = Some minor)
   \<and> ''stella-montis'' \<in> set (map snd prefixToMapId)
   \<and> (\<exists>ts major minor.
         seed ''stella-montis'' = Some ts \<and> ts ''major'' = Some major \<and> ts ''minor'' = Some minor)"
proof -
  have b: "buildSchedule [] [] = Inr seed" by (simp add: buildSchedule_def)
  have d: "''dam-battleground'' \<in> set (map snd prefixToMapId)"
    and m: "''stella-montis'' \<in> set (map snd prefixToMapId)"
    by (simp_all add: prefixToMapId_def)
  note w = buildSchedule_seeds_every_location [OF b]
  from w d have "\<exists>ts major minor.
      seed ''dam-battleground'' = Some ts \<and> ts ''major'' = Some major \<and> ts ''minor'' = Some minor"
    by (rule bspec)
  moreover from w m have "\<exists>ts major minor.
      seed ''stella-montis'' = Some ts \<and> ts ''major'' = Some major \<and> ts ''minor'' = Some minor"
    by (rule bspec)
  ultimately show ?thesis using b d m by blast
qed

section \<open>Evaluating a field\<close>

lemmas string_eval = toLowerCase_def is_upper_def trim_def is_space_def slugify_def
  remove_quotes_def is_quote_def is_slug_char_def strip_hyphens_def is_hyphen_def

lemma process_field_hour: "process_field c h (''hour'', v) s = Inr s"
  by (simp add: process_field_def)

lemma match_key_hour: "match_key ''hour'' = None"
  by (simp add: match_key_def)

lemma field_buriedCityMinor_Ambush:
  assumes "map_of c ''ambush'' = Some d" and "truthy d"
  shows "process_field c h (''buriedCityMinor'', JStr ''Ambush'') s
           = assign_slot s (Own ''buried-city'') ''minor'' (num_to_string h) ''ambush''"
  using assms
  by (simp add: process_field_def match_key_def is_alpha_def get_prop_def prefixToMapId_def
      truthy_prop_def eventName_of_def typeof_def string_eval)

lemma num_to_string_5: "num_to_string (Dec 5 0) = ''5''"
  by (simp add: num_to_string_def digits.simps)

lemma num_to_string_5_5: "num_to_string (Dec 55 1) = ''5.5''"
  by (simp add: num_to_string_def digits.simps)

lemma num_to_string_5_5_Suc: "num_to_string (Dec 55 (Suc 0)) = ''5.5''"
  using num_to_string_5_5 by simp

lemma entry_eval:
  "map_of fs ''hour'' = Some (JNum h) \<Longrightarrow>
   process_entry c (JObj fs) s = process_fields c h fs s"
  by (simp add: process_entry_def hour_of_def get_prop_def number_of_def own_entries_def)

lemma match_key_damMajor: "match_key ''damMajor'' = Some (''dam'', ''Major'')"
  by (simp add: match_key_def is_alpha_def)

lemma eventName_None: "eventName_of (JStr ''None'') = Inr ''None''"
  by (simp add: eventName_of_def typeof_def trim_def is_space_def)

lemma lower_None: "toLowerCase ''None'' = ''none''"
  by (simp add: toLowerCase_def is_upper_def)

lemma eventName_Ambush: "eventName_of (JStr ''Ambush'') = Inr ''Ambush''"
  by (simp add: eventName_of_def typeof_def trim_def is_space_def)

lemma lower_Ambush: "toLowerCase ''Ambush'' = ''ambush''"
  by (simp add: toLowerCase_def is_upper_def)

lemma slugify_Ambush: "slugify ''Ambush'' = ''ambush''"
  by (simp add: string_eval)

lemma table_value_nonempty: "map_of prefixToMapId prefix = Some mapId \<Longrightarrow> mapId \<noteq> []"
  by (auto simp: prefixToMapId_def split: if_splits)

lemma table_prefix_resolves:
  "map_of prefixToMapId prefix = Some mapId \<Longrightarrow>
   truthy_prop (\<lambda>s. s \<noteq> []) (get_prop prefixToMapId prefix)"
  by (simp add: get_prop_def truthy_prop_def table_value_nonempty)

text \<open>
  Claim C10. Whenever \<open>buildSchedule\<close> returns a schedule, its top-level keys are exactly
  the five location identifiers of the prefix table: no rotation entry adds a key.
\<close>

theorem buildSchedule_key_set:
  assumes "buildSchedule fullRotation eventTypes = Inr schedule"
  shows "dom schedule = set (map snd prefixToMapId)
    \<and> dom schedule
        = {''dam-battleground'', ''buried-city'', ''the-spaceport'', ''blue-gate'', ''stella-montis''}"
proof -
  from assms have "seeded schedule" by (rule buildSchedule_seeded)
  then show ?thesis unfolding seeded_def by (auto simp: prefixToMapId_def)
qed

text \<open>A rotation that writes a slot: the keys of the result are still the five.\<close>

theorem buildSchedule_key_set_witness:
  "buildSchedule [JObj [(''hour'', JNum (Dec 5 0)), (''buriedCityMinor'', JStr ''Ambush'')]]
      [(''ambush'', JObj [])]
     = Inr (seed(''buried-city'' \<mapsto> [''major'' \<mapsto> Map.empty, ''minor'' \<mapsto> [''5'' \<mapsto> ''ambush'']]))
   \<and> dom (seed(''buried-city'' \<mapsto> [''major'' \<mapsto> Map.empty, ''minor'' \<mapsto> [''5'' \<mapsto> ''ambush'']]))
     = {''dam-battleground'', ''buried-city'', ''the-spaceport'', ''blue-gate'', ''stella-montis''}"
proof -
  have a: "map_of [(''ambush'', JObj [])] ''ambush'' = Some (JObj [])" by simp
  have b: "truthy (JObj [])" by (simp add: truthy_def)
  have s: "seed ''buried-city'' = Some [''major'' \<mapsto> Map.empty, ''minor'' \<mapsto> Map.empty]"
    by (simp add: seed_eq)
  have r: "buildSchedule [JObj [(''hour'', JNum (Dec 5 0)), (''buriedCityMinor'', JStr ''Ambush'')]]
      [(''ambush'', JObj [])]
     = Inr (seed(''buried-city'' \<mapsto> [''major'' \<mapsto> Map.empty, ''minor'' \<mapsto> [''5'' \<mapsto> ''ambush'']]))"
    by (simp add: buildSchedule_def entry_eval process_field_hour
      field_buriedCityMinor_Ambush [OF a b] num_to_string_5 assign_slot_def s)
  from r buildSchedule_key_set [OF r, THEN conjunct2] show ?thesis by (rule conjI)
qed

text \<open>
  Claim C2. For the rotation list with the single entry
  \<^verbatim>\<open>{hour: 5, buriedCityMinor: "Ambush"}\<close> and any catalog that has the key
  \<^verbatim>\<open>ambush\<close> with a truthy (non-empty) definition, \<open>buildSchedule\<close> returns a schedule
  with \<^verbatim>\<open>schedule["buried-city"]["minor"]["5"] = "ambush"\<close>.
\<close>

theorem buildSchedule_ambush_example:
  assumes "map_of eventTypes ''ambush'' = Some d" and "truthy d"
  shows "\<exists>schedule.
     buildSchedule [JObj [(''hour'', JNum (Dec 5 0)), (''buriedCityMinor'', JStr ''Ambush'')]]
         eventTypes
       = Inr schedule
     \<and> slot schedule ''buried-city'' ''minor'' ''5'' = Some ''ambush''"
  by (simp add: buildSchedule_def entry_eval process_field_hour
      field_buriedCityMinor_Ambush [OF assms] num_to_string_5 assign_slot_def seed_eq slot_def)

text \<open>The catalog \<^verbatim>\<open>{"ambush": {}}\<close>: an empty object is truthy.\<close>

theorem buildSchedule_ambush_example_witness:
  "map_of [(''ambush'', JObj [])] ''ambush'' = Some (JObj []) \<and> truthy (JObj [])
   \<and> (\<exists>schedule.
         buildSchedule [JObj [(''hour'', JNum (Dec 5 0)), (''buriedCityMinor'', JStr ''Ambush'')]]
             [(''ambush'', JObj [])]
           = Inr schedule
         \<and> slot schedule ''buried-city'' ''minor'' ''5'' = Some ''ambush'')"
proof -
  have a: "map_of [(''ambush'', JObj [])] ''ambush'' = Some (JObj [])" by simp
  have b: "truthy (JObj [])" by (simp add: truthy_def)
  from buildSchedule_ambush_example [OF a b] a b show ?thesis by simp
qed

section \<open>Skipped entries and fields\<close>

lemma process_fields_append:
  "process_fields c h (fs @ gs) s =
     (case process_fields c h fs s of Inl e \<Rightarrow> Inl e | Inr s' \<Rightarrow> process_fields c h gs s')"
  by (induction fs arbitrary: s) (auto split: sum.splits)

lemma process_entries_append:
  "process_entries c (es @ ds) s =
     (case process_entries c es s of Inl e \<Rightarrow> Inl e | Inr s' \<Rightarrow> process_entries c ds s')"
  by (induction es arbitrary: s) (auto split: sum.splits)

lemma process_entries_skip:
  assumes "\<And>s. process_entry c e s = Inr s"
  shows "process_entries c (pre @ e # post) s = process_entries c (pre @ post) s"
  by (simp add: process_entries_append assms split: sum.splits)

lemma process_entries_cong_entry:
  assumes "\<And>s. process_entry c e s = process_entry c e' s"
  shows "process_entries c (pre @ e # post) s = process_entries c (pre @ e' # post) s"
  by (simp add: process_entries_append assms split: sum.splits)

lemma process_fields_skip:
  assumes "\<And>s. process_field c h f s = Inr s"
  shows "process_fields c h (f1 @ f # f2) s = process_fields c h (f1 @ f2) s"
  by (simp add: process_fields_append assms split: sum.splits)

lemma get_prop_remove:
  "k \<noteq> key \<Longrightarrow> get_prop (f1 @ (k, v) # f2) key = get_prop (f1 @ f2) key"
  by (simp add: get_prop_def map_add_def split: option.splits)

lemma process_field_skip:
  assumes "match_key key = Some (prefix, tierRaw)"
    and "map_of prefixToMapId prefix = Some mapId"
    and "eventName_of rawName = Inr eventName"
    and "eventName = [] \<or> toLowerCase eventName = ''none''"
  shows "process_field c h (key, rawName) s = Inr s"
  using assms table_prefix_resolves [OF assms(2)] by (auto simp: process_field_def)

text \<open>
  Claim C4, as stated, fails: the entry \<^verbatim>\<open>{hour: 5.5, buriedCityMinor: "Ambush"}\<close> has an
  hour that is not an integer, and with the catalog \<^verbatim>\<open>{"ambush": {}}\<close> it is not skipped:
  it writes the slot \<^verbatim>\<open>schedule["buried-city"]["minor"]["5.5"]\<close>, which the empty
  rotation does not have. The test of the code is \<^verbatim>\<open>typeof hour !== "number"\<close>.
\<close>

theorem buildSchedule_fractional_hour_counterexample:
  "hour_of (JObj [(''hour'', JNum (Dec 55 1)), (''buriedCityMinor'', JStr ''Ambush'')])
     = Inr (Own (JNum (Dec 55 1)))
   \<and> \<not> is_integer (Dec 55 1)
   \<and> result_slot
        (buildSchedule [JObj [(''hour'', JNum (Dec 55 1)), (''buriedCityMinor'', JStr ''Ambush'')]]
           [(''ambush'', JObj [])])
        ''buried-city'' ''minor'' ''5.5'' = Some ''ambush''
   \<and> result_slot (buildSchedule [] [(''ambush'', JObj [])]) ''buried-city'' ''minor'' ''5.5'' = None"
proof -
  have a: "map_of [(''ambush'', JObj [])] ''ambush'' = Some (JObj [])" by simp
  have b: "truthy (JObj [])" by (simp add: truthy_def)
  show ?thesis
    by (simp add: buildSchedule_def entry_eval process_field_hour
      field_buriedCityMinor_Ambush [OF a b] num_to_string_5_5_Suc assign_slot_def seed_eq slot_def
      result_slot_def hour_of_def get_prop_def is_integer_def)
qed

text \<open>
  Claim C4, amended. For every rotation entry other than \<^verbatim>\<open>null\<close> whose \<^verbatim>\<open>hour\<close> is
  absent or is not of type number, \<open>buildSchedule\<close> skips the entry entirely: the result,
  schedule or error, is that of the rotation list without the entry.
\<close>

theorem buildSchedule_skips_non_number_hour:
  assumes "hour_of entry = Inr h" and "number_of h = None"
  shows "buildSchedule (pre @ entry # post) eventTypes = buildSchedule (pre @ post) eventTypes"
  unfolding buildSchedule_def
  by (rule process_entries_skip) (simp add: process_entry_def assms)

text \<open>The entry \<^verbatim>\<open>{hour: "5", buriedCityMinor: "Ambush"}\<close>, whose hour is a string.\<close>

theorem buildSchedule_skips_non_number_hour_witness:
  "hour_of (JObj [(''hour'', JStr ''5''), (''buriedCityMinor'', JStr ''Ambush'')])
     = Inr (Own (JStr ''5''))
   \<and> number_of (Own (JStr ''5'')) = None
   \<and> buildSchedule [JObj [(''hour'', JStr ''5''), (''buriedCityMinor'', JStr ''Ambush'')]] []
       = buildSchedule [] []"
proof -
  have a: "hour_of (JObj [(''hour'', JStr ''5''), (''buriedCityMinor'', JStr ''Ambush'')])
      = Inr (Own (JStr ''5''))"
    by (simp add: hour_of_def get_prop_def)
  have b: "number_of (Own (JStr ''5'')) = None" by (simp add: number_of_def)
  from buildSchedule_skips_non_number_hour [OF a b, of "[]" "[]" "[]"] a b
  show ?thesis by simp
qed

text \<open>
  Claim C6, as stated, fails: it speaks of every matched field. The field
  \<^verbatim>\<open>unknownZoneMajor: "None"\<close> matches the pattern and its value is "none" without regard
  to case, yet the entry \<^verbatim>\<open>{hour: 3, unknownZoneMajor: "None"}\<close> raises the
  unexpected-prefix error: the prefix is resolved before the value is looked at.
\<close>

theorem buildSchedule_none_value_unknown_prefix_counterexample:
  "match_key ''unknownZoneMajor'' = Some (''unknownZone'', ''Major'')
   \<and> eventName_of (JStr ''None'') = Inr ''None''
   \<and> toLowerCase ''None'' = ''none''
   \<and> buildSchedule [JObj [(''hour'', JNum (Dec 3 0)), (''unknownZoneMajor'', JStr ''None'')]] []
       = Inl (UnexpectedMapPrefix ''unknownZone'')"
proof -
  have m: "match_key ''unknownZoneMajor'' = Some (''unknownZone'', ''Major'')"
    by (simp add: match_key_def is_alpha_def)
  have u: "\<not> truthy_prop (\<lambda>s. s \<noteq> []) (get_prop prefixToMapId ''unknownZone'')"
    by (simp add: get_prop_def prefixToMapId_def object_prototype_names_def truthy_prop_def)
  have "process_field [] (Dec 3 0) (''unknownZoneMajor'', JStr ''None'') s
      = Inl (UnexpectedMapPrefix ''unknownZone'')" for s
    using u by (simp add: process_field_def m)
  then show ?thesis
    by (simp add: m eventName_None lower_None buildSchedule_def entry_eval process_field_hour)
qed

text \<open>
  Claim C6, amended. For every matched field whose prefix is in the prefix table and whose
  coerced value (the trimmed string, or \<^verbatim>\<open>String(rawName || "")\<close> for a value that is
  not a string) is empty or equals "none" without regard to case, \<open>buildSchedule\<close> records
  no slot and raises no error for that field: the field leaves the schedule as it is, and
  the result of any rotation list is the result of the list without the field.
\<close>

theorem buildSchedule_skips_none_value:
  assumes "match_key key = Some (prefix, tierRaw)"
    and "map_of prefixToMapId prefix = Some mapId"
    and "eventName_of rawName = Inr eventName"
    and "eventName = [] \<or> toLowerCase eventName = ''none''"
  shows "process_field eventTypes hour (key, rawName) schedule = Inr schedule
    \<and> buildSchedule (pre @ JObj (f1 @ (key, rawName) # f2) # post) eventTypes
        = buildSchedule (pre @ JObj (f1 @ f2) # post) eventTypes"
proof
  show "process_field eventTypes hour (key, rawName) schedule = Inr schedule"
    using assms by (rule process_field_skip)
next
  from assms(1) have k: "key \<noteq> ''hour''" using match_key_hour by auto
  have "process_entry eventTypes (JObj (f1 @ (key, rawName) # f2)) s
      = process_entry eventTypes (JObj (f1 @ f2)) s" for s
    by (simp add: process_entry_def hour_of_def own_entries_def get_prop_remove [OF k]
        process_fields_skip [OF process_field_skip [OF assms]] split: option.splits)
  then show "buildSchedule (pre @ JObj (f1 @ (key, rawName) # f2) # post) eventTypes
        = buildSchedule (pre @ JObj (f1 @ f2) # post) eventTypes"
    unfolding buildSchedule_def by (rule process_entries_cong_entry)
qed

text \<open>
  The entry \<^verbatim>\<open>{hour: 3, damMajor: "None"}\<close>: the call returns the seeded schedule, which
  has no slot at hour 3 in the major bucket of \<^verbatim>\<open>dam-battleground\<close>.
\<close>

theorem buildSchedule_skips_none_value_witness:
  "match_key ''damMajor'' = Some (''dam'', ''Major'')
   \<and> map_of prefixToMapId ''dam'' = Some ''dam-battleground''
   \<and> eventName_of (JStr ''None'') = Inr ''None''
   \<and> toLowerCase ''None'' = ''none''
   \<and> buildSchedule [JObj [(''hour'', JNum (Dec 3 0)), (''damMajor'', JStr ''None'')]] [] = Inr seed
   \<and> slot seed ''dam-battleground'' ''major'' ''3'' = None"
proof -
  have t: "map_of prefixToMapId ''dam'' = Some ''dam-battleground''"
    by (simp add: prefixToMapId_def)
  have n: "''None'' = [] \<or> toLowerCase ''None'' = ''none''" by (simp add: lower_None)
  have "buildSchedule ([] @ JObj ([(''hour'', JNum (Dec 3 0))] @ (''damMajor'', JStr ''None'') # []) # []) []
      = buildSchedule ([] @ JObj ([(''hour'', JNum (Dec 3 0))] @ []) # []) []"
    using buildSchedule_skips_none_value [OF match_key_damMajor t eventName_None n] by blast
  then have "buildSchedule [JObj [(''hour'', JNum (Dec 3 0)), (''damMajor'', JStr ''None'')]] []
      = Inr seed"
    by (simp add: buildSchedule_def entry_eval process_field_hour)
  with t show ?thesis
    by (simp add: match_key_damMajor eventName_None lower_None slot_def seed_eq)
qed

section \<open>The two contract checks\<close>

lemma process_fields_fail:
  assumes "\<And>s. isl (process_field c h f s)"
  shows "isl (process_fields c h (f1 @ f # f2) s)"
  using assms [of "projr (process_fields c h f1 s)"]
  by (auto simp: process_fields_append isl_def split: sum.splits)

lemma process_entries_fail:
  assumes "\<And>s. isl (process_entry c e s)"
  shows "isl (process_entries c (pre @ e # post) s)"
  using assms [of "projr (process_entries c pre s)"]
  by (auto simp: process_entries_append isl_def split: sum.splits)

text \<open>
  What the two checks do reject: a prefix that is neither in the table nor a member of
  \<^verbatim>\<open>Object.prototype\<close>, and a slug that is neither in the catalog nor such a member.
\<close>

lemma unknown_prefix_throws:
  assumes "match_key key = Some (prefix, tierRaw)"
    and "get_prop prefixToMapId prefix = Undefined"
  shows "process_field c h (key, rawName) s = Inl (UnexpectedMapPrefix prefix)"
proof -
  from assms(1) have "key \<noteq> ''hour''" using match_key_hour by auto
  with assms show ?thesis by (simp add: process_field_def truthy_prop_def)
qed

lemma unknown_event_throws:
  assumes "match_key key = Some (prefix, tierRaw)"
    and "map_of prefixToMapId prefix = Some mapId"
    and "eventName_of rawName = Inr eventName"
    and "eventName \<noteq> []" and "toLowerCase eventName \<noteq> ''none''"
    and "get_prop c (slugify eventName) = Undefined"
  shows "process_field c h (key, rawName) s = Inl (MissingEventType eventName (slugify eventName))"
proof -
  from assms(1) have "key \<noteq> ''hour''" using match_key_hour by auto
  with assms table_prefix_resolves [OF assms(2)] show ?thesis
    by (simp add: process_field_def truthy_prop_def)
qed

text \<open>
  Claim C7 at the input \<^verbatim>\<open>[{hour: 1, constructorMajor: "None"}]\<close>. The field name
  matches the pattern and its prefix \<^verbatim>\<open>constructor\<close> is not in the prefix table, but
  \<^verbatim>\<open>prefixToMapId["constructor"]\<close> is the inherited \<^verbatim>\<open>Object\<close> function, which is truthy:
  the check in line 84 does not throw, the value "None" is skipped, and the call returns
  the seeded schedule.
\<close>

theorem buildSchedule_inherited_prefix_not_rejected:
  "map_of prefixToMapId ''constructor'' = None
   \<and> match_key ''constructorMajor'' = Some (''constructor'', ''Major'')
   \<and> buildSchedule [JObj [(''hour'', JNum (Dec 1 0)), (''constructorMajor'', JStr ''None'')]] []
       = Inr seed"
  by (simp add: buildSchedule_def entry_eval process_field_hour process_field_def
      match_key_def is_alpha_def get_prop_def prefixToMapId_def object_prototype_names_def
      truthy_prop_def eventName_None lower_None)

text \<open>
  Claim C8 at the input \<^verbatim>\<open>[{hour: 5, damMajor: "Constructor"}]\<close> with the empty catalog.
  The slug \<^verbatim>\<open>constructor\<close> is not a key of the catalog, but \<^verbatim>\<open>eventTypes["constructor"]\<close>
  is the inherited \<^verbatim>\<open>Object\<close> function, which is truthy: the check in line 97 does not
  throw and the slot is written.
\<close>

theorem buildSchedule_inherited_slug_not_rejected:
  "map_of ([] :: (string \<times> json) list) (slugify ''Constructor'') = None
   \<and> slugify ''Constructor'' = ''constructor''
   \<and> result_slot
        (buildSchedule [JObj [(''hour'', JNum (Dec 5 0)), (''damMajor'', JStr ''Constructor'')]] [])
        ''dam-battleground'' ''major'' ''5'' = Some ''constructor''"
  by (simp add: buildSchedule_def entry_eval process_field_hour process_field_def
      match_key_def is_alpha_def get_prop_def prefixToMapId_def object_prototype_names_def
      truthy_prop_def eventName_of_def typeof_def string_eval num_to_string_5 assign_slot_def
      seed_eq slot_def result_slot_def)

text \<open>
  Claim C9. The catalog check is a test of truthiness, not of membership: for a matched
  field with a prefix of the table and a value that is neither empty nor "none", when the
  derived identifier is a key of the catalog but maps to a falsy value, the field raises
  the missing-event-type error. A rotation of that one entry returns this error, and no
  rotation that holds such a field in an entry with a numeric hour returns a schedule.
\<close>

theorem buildSchedule_falsy_catalog_entry_throws:
  assumes "match_key key = Some (prefix, tierRaw)"
    and "map_of prefixToMapId prefix = Some mapId"
    and "eventName_of rawName = Inr eventName"
    and "eventName \<noteq> []" and "toLowerCase eventName \<noteq> ''none''"
    and "map_of eventTypes (slugify eventName) = Some v" and "\<not> truthy v"
  shows "process_field eventTypes hour (key, rawName) schedule
           = Inl (MissingEventType eventName (slugify eventName))
    \<and> buildSchedule [JObj [(''hour'', JNum hour), (key, rawName)]] eventTypes
           = Inl (MissingEventType eventName (slugify eventName))
    \<and> (number_of (get_prop (f1 @ (key, rawName) # f2) ''hour'') = Some hour \<longrightarrow>
         isl (buildSchedule (pre @ JObj (f1 @ (key, rawName) # f2) # post) eventTypes))"
proof -
  from assms(1) have k: "key \<noteq> ''hour''" using match_key_hour by auto
  have pf: "process_field eventTypes hour (key, rawName) s
           = Inl (MissingEventType eventName (slugify eventName))" for s
    using assms k table_prefix_resolves [OF assms(2)]
    by (simp add: process_field_def get_prop_def [of eventTypes] truthy_prop_def)
  have one: "buildSchedule [JObj [(''hour'', JNum hour), (key, rawName)]] eventTypes
           = Inl (MissingEventType eventName (slugify eventName))"
    using k by (simp add: buildSchedule_def process_entry_def hour_of_def get_prop_def
        number_of_def own_entries_def pf process_field_hour)
  have "isl (buildSchedule (pre @ JObj (f1 @ (key, rawName) # f2) # post) eventTypes)"
    if h: "number_of (get_prop (f1 @ (key, rawName) # f2) ''hour'') = Some hour"
    unfolding buildSchedule_def
  proof (rule process_entries_fail)
    fix s
    have "isl (process_fields eventTypes hour (f1 @ (key, rawName) # f2) s)"
      by (rule process_fields_fail) (simp add: pf)
    then show "isl (process_entry eventTypes (JObj (f1 @ (key, rawName) # f2)) s)"
      by (simp add: process_entry_def hour_of_def h own_entries_def)
  qed
  with pf one show ?thesis by simp
qed

text \<open>
  The catalog \<^verbatim>\<open>{"ambush": null}\<close> and the entry \<^verbatim>\<open>{hour: 5, damMajor: "Ambush"}\<close>.
\<close>

theorem buildSchedule_falsy_catalog_entry_throws_witness:
  "match_key ''damMajor'' = Some (''dam'', ''Major'')
   \<and> map_of prefixToMapId ''dam'' = Some ''dam-battleground''
   \<and> eventName_of (JStr ''Ambush'') = Inr ''Ambush''
   \<and> ''Ambush'' \<noteq> [] \<and> toLowerCase ''Ambush'' \<noteq> ''none''
   \<and> map_of [(''ambush'', JNull)] (slugify ''Ambush'') = Some JNull \<and> \<not> truthy JNull
   \<and> number_of (get_prop ([(''hour'', JNum (Dec 5 0))] @ (''damMajor'', JStr ''Ambush'') # []) ''hour'')
       = Some (Dec 5 0)
   \<and> buildSchedule [JObj [(''hour'', JNum (Dec 5 0)), (''damMajor'', JStr ''Ambush'')]]
        [(''ambush'', JNull)]
       = Inl (MissingEventType ''Ambush'' ''ambush'')
   \<and> isl (buildSchedule [JObj [(''hour'', JNum (Dec 5 0)), (''damMajor'', JStr ''Ambush'')]]
        [(''ambush'', JNull)])"
proof -
  have t: "map_of prefixToMapId ''dam'' = Some ''dam-battleground''"
    by (simp add: prefixToMapId_def)
  have n: "''Ambush'' \<noteq> []" by simp
  have l: "toLowerCase ''Ambush'' \<noteq> ''none''" by (simp add: lower_Ambush)
  have c: "map_of [(''ambush'', JNull)] (slugify ''Ambush'') = Some JNull"
    by (simp add: slugify_Ambush)
  have f: "\<not> truthy JNull" by (simp add: truthy_def)
  have h: "number_of (get_prop ([(''hour'', JNum (Dec 5 0))] @ (''damMajor'', JStr ''Ambush'') # []) ''hour'')
       = Some (Dec 5 0)"
    by (simp add: number_of_def get_prop_def)
  note w = buildSchedule_falsy_catalog_entry_throws
    [OF match_key_damMajor t eventName_Ambush n l c f,
      of "Dec 5 0" _ "[(''hour'', JNum (Dec 5 0))]" "[]" "[]" "[]"]
  from w have one: "buildSchedule [JObj [(''hour'', JNum (Dec 5 0)), (''damMajor'', JStr ''Ambush'')]]
        [(''ambush'', JNull)]
       = Inl (MissingEventType ''Ambush'' (slugify ''Ambush''))" by blast
  from w h have "isl (buildSchedule ([] @ JObj ([(''hour'', JNum (Dec 5 0))] @ (''damMajor'', JStr ''Ambush'') # []) # [])
        [(''ambush'', JNull)])" by blast
  then have fails: "isl (buildSchedule [JObj [(''hour'', JNum (Dec 5 0)), (''damMajor'', JStr ''Ambush'')]]
        [(''ambush'', JNull)])" by simp
  from t l c f h one fails show ?thesis
    by (simp add: match_key_damMajor eventName_Ambush slugify_Ambush)
qed

section \<open>The merged catalog\<close>

lemma map_of_set_prop: "map_of (set_prop k v fs) = (map_of fs)(k \<mapsto> v)"
  by (induction fs) (auto simp: fun_eq_iff)

lemma keys_set_prop:
  "map fst (set_prop k v fs) = (if k \<in> set (map fst fs) then map fst fs else map fst fs @ [k])"
  by (induction fs) force+

lemma merge_step_lookup:
  "map_of next slug = Some config \<Longrightarrow>
   map_of (merge_step r (slug, config) next) = (map_of next)(slug \<mapsto> merged_entry r slug config)"
  by (auto simp: merge_step_def merged_entry_def map_of_set_prop fun_eq_iff split: option.splits)

lemma merge_step_keys:
  "fst p \<in> set (map fst next) \<Longrightarrow> map fst (merge_step r p next) = map fst next"
  by (cases p) (auto simp: merge_step_def keys_set_prop split: option.splits)

lemma merge_loop_keys:
  "set (map fst rest) \<subseteq> set (map fst next) \<Longrightarrow> map fst (merge_loop r rest next) = map fst next"
proof (induction rest arbitrary: "next")
  case Nil
  show ?case by simp
next
  case (Cons p rest)
  from Cons.prems have k: "map fst (merge_step r p next) = map fst next"
    by (intro merge_step_keys) simp
  with Cons.prems have "set (map fst rest) \<subseteq> set (map fst (merge_step r p next))" by simp
  from Cons.IH [OF this] k show ?case by simp
qed

lemma merge_loop_lookup:
  "distinct (map fst rest) \<Longrightarrow> (\<forall>(s, c)\<in>set rest. map_of next s = Some c) \<Longrightarrow>
   map_of (merge_loop r rest next) k =
     (case map_of rest k of None \<Rightarrow> map_of next k | Some c \<Rightarrow> Some (merged_entry r k c))"
proof (induction rest arbitrary: "next")
  case Nil
  show ?case by simp
next
  case (Cons p rest)
  obtain slug config where p: "p = (slug, config)" by (cases p)
  let ?next = "merge_step r (slug, config) next"
  from Cons.prems p have d: "distinct (map fst rest)" and fresh: "slug \<notin> set (map fst rest)"
    and here: "map_of next slug = Some config"
    and there: "\<forall>(s, c)\<in>set rest. map_of next s = Some c"
    by auto
  note upd = merge_step_lookup [OF here, of r]
  have there': "\<forall>(s, c)\<in>set rest. map_of ?next s = Some c"
  proof (clarify)
    fix s c
    assume sc: "(s, c) \<in> set rest"
    then have "s \<noteq> slug" using fresh by force
    with sc there show "map_of ?next s = Some c" by (auto simp: upd)
  qed
  from fresh have none: "map_of rest slug = None"
    by (simp add: map_of_eq_None_iff)
  have "map_of (merge_loop r (p # rest) next) k = map_of (merge_loop r rest ?next) k"
    by (simp add: p)
  also have "\<dots> =
      (case map_of rest k of None \<Rightarrow> map_of ?next k | Some c \<Rightarrow> Some (merged_entry r k c))"
    using d there' by (rule Cons.IH)
  also have "\<dots> =
      (case map_of (p # rest) k of None \<Rightarrow> map_of next k | Some c \<Rightarrow> Some (merged_entry r k c))"
  proof (cases "k = slug")
    case True
    with none p show ?thesis by (simp add: upd)
  next
    case False
    with p show ?thesis by (simp add: upd split: option.splits)
  qed
  finally show ?case .
qed

text \<open>
  Claim C3, as stated, fails on its "otherwise" branch: a remote \<^verbatim>\<open>localizations\<close> that
  is an array is not a mapping, yet the code accepts it (\<^verbatim>\<open>typeof [] === "object"\<close>) and
  rewrites the local entry.
\<close>

theorem mergeEventLocalizations_array_counterexample:
  "\<not> is_mapping (JArr [JStr ''x''])
   \<and> remote_localizations [(''ambush'', JObj [(''localizations'', JArr [JStr ''x''])])] ''ambush''
       = Some (JArr [JStr ''x''])
   \<and> mergeEventLocalizations [(''ambush'', JObj [(''name'', JStr ''Ambush'')])]
        [(''ambush'', JObj [(''localizations'', JArr [JStr ''x''])])]
       = [(''ambush'', JObj [(''name'', JStr ''Ambush''), (''localizations'', JArr [JStr ''x''])])]"
  by (simp add: is_mapping_def remote_localizations_def get_prop_def mergeEventLocalizations_def
      merge_step_def truthy_def typeof_def own_entries_def)

text \<open>
  Claim C3, amended. For every local catalog (a parsed object: no key twice) and every
  remote mapping, the merged catalog has exactly the keys of the local catalog, in their
  order. Under each key: when the remote entry is an object whose \<^verbatim>\<open>localizations\<close> is a
  JSON object or array (a truthy value of type "object"), the output entry is the object
  of the local entry's own properties with \<^verbatim>\<open>localizations\<close> set to the remote value in
  full, every other field as it was (for a local entry that is an object, the entry
  with only that field replaced); otherwise the output entry is the local entry unchanged.
\<close>

theorem mergeEventLocalizations_entries:
  assumes "distinct (map fst eventTypes)"
  shows "map fst (mergeEventLocalizations eventTypes remoteEventTypes) = map fst eventTypes
    \<and> (\<forall>(slug, config)\<in>set eventTypes.
          map_of (mergeEventLocalizations eventTypes remoteEventTypes) slug =
            Some (case remote_localizations remoteEventTypes slug of
                    None \<Rightarrow> config
                  | Some localizations \<Rightarrow>
                      if truthy localizations \<and> typeof localizations = ''object''
                      then JObj (set_prop ''localizations'' localizations (own_entries config))
                      else config))
    \<and> (\<forall>localizations fs.
          map_of (set_prop ''localizations'' localizations fs)
            = (map_of fs)(''localizations'' \<mapsto> localizations)
          \<and> own_entries (JObj fs) = fs)"
proof (intro conjI)
  show "map fst (mergeEventLocalizations eventTypes remoteEventTypes) = map fst eventTypes"
    unfolding mergeEventLocalizations_def by (rule merge_loop_keys) simp
next
  have self: "\<forall>(s, c)\<in>set eventTypes. map_of eventTypes s = Some c"
    using assms by auto
  show "\<forall>(slug, config)\<in>set eventTypes.
          map_of (mergeEventLocalizations eventTypes remoteEventTypes) slug =
            Some (case remote_localizations remoteEventTypes slug of
                    None \<Rightarrow> config
                  | Some localizations \<Rightarrow>
                      if truthy localizations \<and> typeof localizations = ''object''
                      then JObj (set_prop ''localizations'' localizations (own_entries config))
                      else config)"
  proof (clarify)
    fix slug config
    assume "(slug, config) \<in> set eventTypes"
    with assms have "map_of eventTypes slug = Some config" by simp
    then show "map_of (mergeEventLocalizations eventTypes remoteEventTypes) slug =
            Some (case remote_localizations remoteEventTypes slug of
                    None \<Rightarrow> config
                  | Some localizations \<Rightarrow>
                      if truthy localizations \<and> typeof localizations = ''object''
                      then JObj (set_prop ''localizations'' localizations (own_entries config))
                      else config)"
      unfolding mergeEventLocalizations_def
      by (simp add: merge_loop_lookup [OF assms self] merged_entry_def)
  qed
next
  show "\<forall>localizations fs.
          map_of (set_prop ''localizations'' localizations fs)
            = (map_of fs)(''localizations'' \<mapsto> localizations)
          \<and> own_entries (JObj fs) = fs"
    by (simp add: map_of_set_prop own_entries_def)
qed

text \<open>
  A local catalog of two entries and a remote mapping that has localizations for the
  first and an entry the local catalog does not know: the first entry has its
  localizations replaced, the second is unchanged, the remote-only key is ignored.
\<close>

theorem mergeEventLocalizations_entries_witness:
  "distinct (map fst
      [(''ambush'', JObj [(''name'', JStr ''Ambush''),
                          (''localizations'', JObj [(''de'', JStr ''Hinterhalt'')])]),
       (''raid'', JObj [(''name'', JStr ''Raid'')])])
   \<and> mergeEventLocalizations
        [(''ambush'', JObj [(''name'', JStr ''Ambush''),
                            (''localizations'', JObj [(''de'', JStr ''Hinterhalt'')])]),
         (''raid'', JObj [(''name'', JStr ''Raid'')])]
        [(''ambush'', JObj [(''localizations'', JObj [(''en'', JStr ''Ambush'')])]),
         (''storm'', JObj [(''localizations'', JObj [(''en'', JStr ''Storm'')])])]
       = [(''ambush'', JObj [(''name'', JStr ''Ambush''),
                             (''localizations'', JObj [(''en'', JStr ''Ambush'')])]),
          (''raid'', JObj [(''name'', JStr ''Raid'')])]"
proof -
  let ?local = "[(''ambush'', JObj [(''name'', JStr ''Ambush''),
                                    (''localizations'', JObj [(''de'', JStr ''Hinterhalt'')])]),
                 (''raid'', JObj [(''name'', JStr ''Raid'')])]"
  let ?remote = "[(''ambush'', JObj [(''localizations'', JObj [(''en'', JStr ''Ambush'')])]),
                  (''storm'', JObj [(''localizations'', JObj [(''en'', JStr ''Storm'')])])]"
  have d: "distinct (map fst ?local)" by simp
  have ra: "remote_localizations ?remote ''ambush'' = Some (JObj [(''en'', JStr ''Ambush'')])"
    by (simp add: remote_localizations_def get_prop_def)
  have rr: "remote_localizations ?remote ''raid'' = None"
    by (simp add: remote_localizations_def get_prop_def object_prototype_names_def)
  from mergeEventLocalizations_entries [OF d, of ?remote]
  have keys: "map fst (mergeEventLocalizations ?local ?remote) = [''ambush'', ''raid'']"
    and a: "map_of (mergeEventLocalizations ?local ?remote) ''ambush''
       = Some (JObj [(''name'', JStr ''Ambush''),
                     (''localizations'', JObj [(''en'', JStr ''Ambush'')])])"
    and r: "map_of (mergeEventLocalizations ?local ?remote) ''raid''
       = Some (JObj [(''name'', JStr ''Raid'')])"
    by (simp_all add: ra rr truthy_def typeof_def own_entries_def)
  from keys obtain x y
    where m: "mergeEventLocalizations ?local ?remote = [(''ambush'', x), (''raid'', y)]"
    by (auto simp: map_eq_Cons_conv)
  with a r have "x = JObj [(''name'', JStr ''Ambush''),
                           (''localizations'', JObj [(''en'', JStr ''Ambush'')])]"
    and "y = JObj [(''name'', JStr ''Raid'')]" by simp_all
  with m d show ?thesis by simp
qed

end
